theory Spec2Isabelle
  imports Complex_Main "HOL-Library.AList" "HOL-Library.Sublist"
begin

section \<open>Streaming execution engine (app/langgraph_graph.py, app/main.py)\<close>

text \<open>
  The stream handler yields dictionaries \<^verbatim>\<open>{"type": t, "content": c}\<close>.  Both fields
  are strings; a string is the list of its characters.
\<close>

datatype chunk = Chunk (ctype: string) (content: string)

text \<open>
  A low-level event of \<^verbatim>\<open>graph.astream_events\<close>, reduced to the three entries the
  handler reads: \<^verbatim>\<open>event.get("event")\<close>, the \<^verbatim>\<open>content\<close> attribute of
  \<^verbatim>\<open>event["data"]["chunk"]\<close> (\<open>None\<close> when there is no chunk or it has no such
  attribute) and \<^verbatim>\<open>event.get("name")\<close>.
\<close>

record low_event =
  event :: "string option"
  chunk_content :: "string option"
  name :: "string option"

text \<open>
  One iteration of the \<^verbatim>\<open>async for\<close> loop receives an event; \<open>is_set\<close> is what
  \<^verbatim>\<open>cancel_flag.is_set()\<close> answers at that moment.  The event source is the graph
  library, outside the repository: a turn is given by the finite sequence of events it
  delivers and by the way the iteration ends:
  \<^item> \<open>Exhausted\<close>: the source has no more events;
  \<^item> \<open>Raises m\<close>: the source raises an \<^verbatim>\<open>Exception\<close> with message \<open>m\<close>, which
    the handler's \<^verbatim>\<open>except Exception\<close> catches;
  \<^item> \<open>Escapes m\<close>: the wait for the next event is ended by an exception that is not
    an \<^verbatim>\<open>Exception\<close>, such as \<^verbatim>\<open>asyncio.CancelledError\<close> when the task of the
    request is cancelled; \<^verbatim>\<open>except Exception\<close> does not catch it.
\<close>

datatype step = Step (is_set: bool) (ev: low_event)

datatype source_end = Exhausted | Raises string | Escapes string

text \<open>The body of the loop after the cancellation check: what one event makes the handler yield.\<close>

definition on_event :: "low_event \<Rightarrow> chunk list" where
  "on_event e =
     (if event e = Some ''on_chat_model_stream'' then
        (case chunk_content e of
           None \<Rightarrow> []
         | Some c \<Rightarrow> if c \<noteq> [] then [Chunk ''token'' c] else [])
      else if event e = Some ''on_tool_start'' then
        (case name e of
           None \<Rightarrow> []
         | Some n \<Rightarrow>
             if n \<noteq> [] \<and> n \<notin> set [''_Exception'', ''LangGraph'']
             then [Chunk ''intent'' n] else [])
      else [])"

text \<open>
  \<^verbatim>\<open>process_user_message_with_context_streaming\<close>: the sequence of chunks the generator
  yields when it is driven to its end.  \<open>cancel_flag\<close> says whether a flag object was
  passed (\<^verbatim>\<open>Optional[asyncio.Event]\<close>).  The \<^verbatim>\<open>return\<close> after \<^verbatim>\<open>cancelled\<close> leaves
  the generator; the \<^verbatim>\<open>except\<close> branch yields \<^verbatim>\<open>error\<close> and then falls through to
  the final \<^verbatim>\<open>yield\<close> of \<^verbatim>\<open>done\<close>.  An exception that the \<^verbatim>\<open>except\<close> branch
  does not catch leaves the generator at once: no further chunk is yielded, neither
  \<^verbatim>\<open>error\<close> nor \<^verbatim>\<open>done\<close>.
\<close>

fun process_user_message_with_context_streaming ::
  "bool \<Rightarrow> step list \<Rightarrow> source_end \<Rightarrow> chunk list" where
  "process_user_message_with_context_streaming cancel_flag [] Exhausted =
     [Chunk ''done'' '''']"
| "process_user_message_with_context_streaming cancel_flag [] (Raises m) =
     [Chunk ''error'' m, Chunk ''done'' '''']"
| "process_user_message_with_context_streaming cancel_flag [] (Escapes m) = []"
| "process_user_message_with_context_streaming cancel_flag (s # rest) fin =
     (if cancel_flag \<and> is_set s then [Chunk ''cancelled'' ''Stream cancelled'']
      else on_event (ev s) @ process_user_message_with_context_streaming cancel_flag rest fin)"

text \<open>
  Whether the generator, driven to its end, ends with the uncaught exception instead
  of returning.
\<close>

fun streaming_raises :: "bool \<Rightarrow> step list \<Rightarrow> source_end \<Rightarrow> bool" where
  "streaming_raises cancel_flag [] Exhausted = False"
| "streaming_raises cancel_flag [] (Raises m) = False"
| "streaming_raises cancel_flag [] (Escapes m) = True"
| "streaming_raises cancel_flag (s # rest) fin =
     (if cancel_flag \<and> is_set s then False else streaming_raises cancel_flag rest fin)"

text \<open>
  \<^verbatim>\<open>sse_streamer\<close> pulls chunks from the generator one at a time, sends each as
  \<^verbatim>\<open>data: <json>\n\n\<close> and stops pulling after a chunk of type \<^verbatim>\<open>done\<close>,
  \<^verbatim>\<open>cancelled\<close> or \<^verbatim>\<open>error\<close>.  \<open>dumps_ok c\<close> says whether \<^verbatim>\<open>json.dumps(c)\<close>
  returns; when it raises, the fixed error frame is sent and the loop is left.  A frame
  is represented by the chunk it carries.
\<close>

definition is_terminal :: "chunk \<Rightarrow> bool" where
  "is_terminal c \<longleftrightarrow> ctype c \<in> set [''done'', ''cancelled'', ''error'']"





section \<open>Router: the supervisor step (app/langgraph_graph.py)\<close>

text \<open>
  \<^verbatim>\<open>RouteResponse.next\<close> has the type
  \<^verbatim>\<open>Literal["BookingAgent", "SupportAgent", "FINISH"]\<close>: a structured answer that is
  returned at all carries one of the three names.
\<close>

datatype route = BookingAgent | SupportAgent | FINISH

fun route_name :: "route \<Rightarrow> string" where
  "route_name BookingAgent = ''BookingAgent''"
| "route_name SupportAgent = ''SupportAgent''"
| "route_name FINISH = ''FINISH''"

text \<open>
  \<^verbatim>\<open>str.strip()\<close> removes leading and trailing whitespace; the characters below are
  the ones Python counts as whitespace among the first 256 code points.
\<close>

definition is_space :: "char \<Rightarrow> bool" where
  "is_space c \<longleftrightarrow>
     of_char c \<in> set [9, 10, 11, 12, 13, 28, 29, 30, 31, 32, 133, 160 :: nat]"

definition strip :: "string \<Rightarrow> string" where
  "strip s = rev (dropWhile is_space (rev (dropWhile is_space s)))"

text \<open>
  \<^verbatim>\<open>supervisor_node\<close>.  The language model is outside the repository; the step is
  given the outcomes of its two requests: \<open>structured\<close> for
  \<^verbatim>\<open>llm.with_structured_output(RouteResponse).invoke(...)\<close> followed by reading
  \<^verbatim>\<open>.next\<close>, and \<open>free_text\<close> for the fallback \<^verbatim>\<open>llm.invoke(...)\<close> with its
  \<^verbatim>\<open>.content\<close>.  \<open>Inl e\<close> is an exception with message \<open>e\<close>.  The fallback request
  is made only in the \<^verbatim>\<open>except\<close> branch and is not guarded itself, so its exception
  leaves the function.  The result \<open>Inr n\<close> is the returned \<^verbatim>\<open>{"next": n}\<close>; the
  test \<^verbatim>\<open>"BookingAgent" in content\<close> is the contiguous-substring test \<^const>\<open>sublist\<close>.
\<close>

definition supervisor_node :: "string + route \<Rightarrow> string + string \<Rightarrow> string + string" where
  "supervisor_node structured free_text =
     (case structured of
        Inr response \<Rightarrow> Inr (route_name response)
      | Inl e \<Rightarrow>
          (case free_text of
             Inl e' \<Rightarrow> Inl e'
           | Inr resp_content \<Rightarrow>
               (let content = strip resp_content in
                if sublist ''BookingAgent'' content then Inr ''BookingAgent''
                else if sublist ''SupportAgent'' content then Inr ''SupportAgent''
                else Inr ''FINISH'')))"

section \<open>Embedding cache (app/cache.py)\<close>

type_synonym embedding = "real list"

text \<open>
  \<^verbatim>\<open>EmbeddingCache\<close>.  \<open>cache\<close> is the dictionary \<^verbatim>\<open>self._cache\<close> as the list of its
  items in iteration order, which for a Python dictionary is the order in which the keys
  were inserted: assigning to a new key appends, assigning to a key already present
  replaces the value in place (\<^const>\<open>AList.update\<close>), and \<^verbatim>\<open>pop(k)\<close> removes the
  item of \<open>k\<close> (\<^const>\<open>AList.delete\<close>).
\<close>

record EmbeddingCache =
  max_size :: nat
  cache :: "(string \<times> embedding) list"
  hits :: nat
  misses :: nat

definition EmbeddingCache_init :: "nat \<Rightarrow> EmbeddingCache" where
  "EmbeddingCache_init n = \<lparr>max_size = n, cache = [], hits = 0, misses = 0\<rparr>"

text \<open>
  \<^verbatim>\<open>get\<close> and \<^verbatim>\<open>set\<close>.  \<open>hash_text\<close> stands for \<^verbatim>\<open>_hash_text\<close>, the MD5 hex digest
  computed by the standard library.  In \<^verbatim>\<open>set\<close>, \<^verbatim>\<open>next(iter(self._cache))\<close> on an
  empty dictionary raises \<^verbatim>\<open>StopIteration\<close>; this happens exactly when the cache is
  empty and \<open>max_size\<close> is 0.
\<close>

datatype cache_error = StopIteration

definition EmbeddingCache_get ::
  "(string \<Rightarrow> string) \<Rightarrow> EmbeddingCache \<Rightarrow> string \<Rightarrow> embedding option \<times> EmbeddingCache" where
  "EmbeddingCache_get hash_text c text =
     (let key = hash_text text in
      case map_of (cache c) key of
        Some v \<Rightarrow> (Some v, c\<lparr>hits := hits c + 1\<rparr>)
      | None \<Rightarrow> (None, c\<lparr>misses := misses c + 1\<rparr>))"

definition EmbeddingCache_set ::
  "(string \<Rightarrow> string) \<Rightarrow> EmbeddingCache \<Rightarrow> string \<Rightarrow> embedding
     \<Rightarrow> cache_error + EmbeddingCache" where
  "EmbeddingCache_set hash_text c text v =
     (let key = hash_text text in
      if length (cache c) \<ge> max_size c then
        (case cache c of
           [] \<Rightarrow> Inl StopIteration
         | (oldest, _) # _ \<Rightarrow>
             Inr (c\<lparr>cache := AList.update key v (AList.delete oldest (cache c))\<rparr>))
      else Inr (c\<lparr>cache := AList.update key v (cache c)\<rparr>))"

text \<open>
  A sequence of \<^verbatim>\<open>get\<close>/\<^verbatim>\<open>set\<close> calls on one cache.  A \<^verbatim>\<open>set\<close> that raises has not
  changed the cache.
\<close>

datatype cache_op = Get string | Set string embedding

fun apply_ops :: "(string \<Rightarrow> string) \<Rightarrow> cache_op list \<Rightarrow> EmbeddingCache \<Rightarrow> EmbeddingCache" where
  "apply_ops hash_text [] c = c"
| "apply_ops hash_text (Get text # ops) c =
     apply_ops hash_text ops (snd (EmbeddingCache_get hash_text c text))"
| "apply_ops hash_text (Set text v # ops) c =
     apply_ops hash_text ops
       (case EmbeddingCache_set hash_text c text v of Inl _ \<Rightarrow> c | Inr c' \<Rightarrow> c')"

section \<open>Conversation buffer and flusher (app/persistence.py)\<close>

text \<open>The dictionary \<^verbatim>\<open>data_row\<close> built by \<^verbatim>\<open>store_conversation\<close>.\<close>

record data_row =
  user_name :: string
  user_id :: string
  session_id :: string
  timestamp :: string
  user_message :: string
  bot_response :: string
  embedding :: embedding
  intent :: string

text \<open>
  The Milvus client is a remote service.  What the model keeps of it is the list of
  batches for which \<^verbatim>\<open>client.insert\<close> returned, oldest first.  Whether a request
  succeeds is decided outside the program: each call of \<^verbatim>\<open>flush_session\<close> is given
  the outcome of the requests it may make.
\<close>

record MilvusClient =
  inserted :: "data_row list list"

record milvus_outcome =
  load_collection_ok :: bool
  insert_ok :: bool

text \<open>
  The fields of \<^verbatim>\<open>ChatPersistence\<close> that the buffer uses.  \<open>client = None\<close> is
  \<^verbatim>\<open>self.client = None\<close>.  The two dictionaries are kept as lists of items in insertion
  order, times are real numbers (seconds), and \<open>BUFFER_TTL\<close> is the value of
  \<^verbatim>\<open>Config.BUFFER_TTL\<close> (app/config.py), kept as a field as the class does.
\<close>

record ChatPersistence =
  client :: "MilvusClient option"
  collection_loaded :: bool
  write_buffer :: "(string \<times> data_row list) list"
  buffer_timestamps :: "(string \<times> real) list"
  BUFFER_TTL :: real
  embedding_cache :: EmbeddingCache

definition BATCH_SIZE :: nat where
  "BATCH_SIZE = 5"

text \<open>
  \<^verbatim>\<open>flush_session\<close>.  The guard on the client comes first; then the test for a missing
  or empty buffer; then the \<^verbatim>\<open>try\<close> block, in which \<^verbatim>\<open>load_collection\<close> (only when
  the collection is not yet loaded) or \<^verbatim>\<open>insert\<close> may raise, and the \<^verbatim>\<open>except\<close>
  branch returns \<^verbatim>\<open>False\<close>.
\<close>

definition flush_session ::
  "milvus_outcome \<Rightarrow> ChatPersistence \<Rightarrow> string \<Rightarrow> bool \<times> ChatPersistence" where
  "flush_session db p sid =
     (case client p of
        None \<Rightarrow> (False, p)
      | Some cl \<Rightarrow>
          (case map_of (write_buffer p) sid of
             None \<Rightarrow> (True, p)
           | Some data_to_insert \<Rightarrow>
               if data_to_insert = [] then (True, p)
               else if \<not> collection_loaded p \<and> \<not> load_collection_ok db then (False, p)
               else if \<not> insert_ok db then (False, p\<lparr>collection_loaded := True\<rparr>)
               else
                 (True,
                  p\<lparr>collection_loaded := True,
                    client := Some (cl\<lparr>inserted := inserted cl @ [data_to_insert]\<rparr>),
                    write_buffer := AList.delete sid (write_buffer p),
                    buffer_timestamps := AList.delete sid (buffer_timestamps p)\<rparr>)))"

text \<open>
  What \<^verbatim>\<open>store_conversation\<close> takes from its surroundings: the hash of the cache, the
  embedding model (\<open>None\<close> when \<^verbatim>\<open>encode\<close> raises), \<^verbatim>\<open>datetime.now().isoformat()\<close>
  and \<^verbatim>\<open>time.time()\<close>.
\<close>

record environment =
  hash_text :: "string \<Rightarrow> string"
  encode :: "string \<Rightarrow> embedding option"
  now_iso :: string
  time_now :: real

text \<open>
  Step 1 of \<^verbatim>\<open>store_conversation\<close>: the embedding of the combined text, from the
  cache or freshly computed and cached.  The first component is \<open>None\<close> when an
  exception is raised (by \<^verbatim>\<open>encode\<close> or by the cache's \<^verbatim>\<open>set\<close>); the cache has then
  counted the miss and is otherwise unchanged.
\<close>

definition cached_embedding ::
  "environment \<Rightarrow> EmbeddingCache \<Rightarrow> string \<Rightarrow> embedding option \<times> EmbeddingCache" where
  "cached_embedding env c combined_text =
     (case EmbeddingCache_get (hash_text env) c combined_text of
        (Some e, c1) \<Rightarrow> (Some e, c1)
      | (None, c1) \<Rightarrow>
          (case encode env combined_text of
             None \<Rightarrow> (None, c1)
           | Some e \<Rightarrow>
               (case EmbeddingCache_set (hash_text env) c1 combined_text e of
                  Inl _ \<Rightarrow> (None, c1)
                | Inr c2 \<Rightarrow> (Some e, c2))))"

text \<open>The row with its fields cut to the schema limits (\<^verbatim>\<open>s[:n]\<close> is \<^term>\<open>take n s\<close>).\<close>

definition make_data_row ::
  "string \<Rightarrow> string \<Rightarrow> string \<Rightarrow> string \<Rightarrow> string \<Rightarrow> string \<Rightarrow> string \<Rightarrow> embedding \<Rightarrow> data_row" where
  "make_data_row user_name' user_id' session_id' user_message' bot_response' intent' stamp e =
     \<lparr>user_name = take 255 user_name',
      user_id = take 255 user_id',
      session_id = take 255 session_id',
      timestamp = stamp,
      user_message = take 2000 user_message',
      bot_response = take 2000 bot_response',
      embedding = e,
      intent = take 100 intent'\<rparr>"

text \<open>
  Steps 2 and 3: create the session's list and its timestamp when the key is new, then
  append the row.  The buffer is keyed by the full \<^verbatim>\<open>session_id\<close>.
\<close>

definition add_to_buffer :: "real \<Rightarrow> ChatPersistence \<Rightarrow> string \<Rightarrow> data_row \<Rightarrow> ChatPersistence" where
  "add_to_buffer now p sid row =
     (case map_of (write_buffer p) sid of
        None \<Rightarrow>
          p\<lparr>write_buffer := AList.update sid [row] (write_buffer p),
            buffer_timestamps := AList.update sid now (buffer_timestamps p)\<rparr>
      | Some rows \<Rightarrow>
          p\<lparr>write_buffer := AList.update sid (rows @ [row]) (write_buffer p)\<rparr>)"

definition current_buffer_size :: "ChatPersistence \<Rightarrow> string \<Rightarrow> nat" where
  "current_buffer_size p sid =
     (case map_of (write_buffer p) sid of None \<Rightarrow> 0 | Some rows \<Rightarrow> length rows)"

definition store_conversation ::
  "environment \<Rightarrow> milvus_outcome \<Rightarrow> ChatPersistence
     \<Rightarrow> string \<Rightarrow> string \<Rightarrow> string \<Rightarrow> string \<Rightarrow> string \<Rightarrow> string
     \<Rightarrow> bool \<times> ChatPersistence" where
  "store_conversation env db p user_name' user_id' session_id' user_message' bot_response' intent' =
     (case client p of
        None \<Rightarrow> (False, p)
      | Some cl \<Rightarrow>
          (let combined_text = user_message' @ '' '' @ bot_response' in
           case cached_embedding env (embedding_cache p) combined_text of
             (None, c1) \<Rightarrow> (False, p\<lparr>embedding_cache := c1\<rparr>)
           | (Some e, c2) \<Rightarrow>
               (let row = make_data_row user_name' user_id' session_id'
                            user_message' bot_response' intent' (now_iso env) e;
                    p1 = add_to_buffer (time_now env) (p\<lparr>embedding_cache := c2\<rparr>) session_id' row
                in if current_buffer_size p1 session_id' \<ge> BATCH_SIZE
                   then flush_session db p1 session_id'
                   else (True, p1))))"

text \<open>
  \<^verbatim>\<open>cleanup_stale_buffers\<close>: collect the sessions whose timestamp is older than the
  TTL, in dictionary order, then flush each; a session whose flush reports failure is
  removed from both dictionaries at once.  \<open>db sid\<close> is the outcome of the storage
  requests made while flushing \<open>sid\<close>.
\<close>

definition stale_sessions :: "real \<Rightarrow> ChatPersistence \<Rightarrow> string list" where
  "stale_sessions current_time p =
     map fst (filter (\<lambda>(sid, t). current_time - t > BUFFER_TTL p) (buffer_timestamps p))"

definition force_remove :: "ChatPersistence \<Rightarrow> string \<Rightarrow> ChatPersistence" where
  "force_remove p sid =
     p\<lparr>write_buffer := AList.delete sid (write_buffer p),
       buffer_timestamps := AList.delete sid (buffer_timestamps p)\<rparr>"

text \<open>The body of the second loop, for one stale session.\<close>

definition cleanup_one :: "milvus_outcome \<Rightarrow> ChatPersistence \<Rightarrow> string \<Rightarrow> ChatPersistence" where
  "cleanup_one outcome p sid =
     (case flush_session outcome p sid of
        (success, p1) \<Rightarrow> if \<not> success then force_remove p1 sid else p1)"

fun cleanup_loop ::
  "(string \<Rightarrow> milvus_outcome) \<Rightarrow> ChatPersistence \<Rightarrow> string list \<Rightarrow> ChatPersistence" where
  "cleanup_loop db p [] = p"
| "cleanup_loop db p (sid # rest) = cleanup_loop db (cleanup_one (db sid) p sid) rest"

definition cleanup_stale_buffers ::
  "(string \<Rightarrow> milvus_outcome) \<Rightarrow> real \<Rightarrow> ChatPersistence \<Rightarrow> ChatPersistence" where
  "cleanup_stale_buffers db current_time p =
     (if buffer_timestamps p = [] then p
      else cleanup_loop db p (stale_sessions current_time p))"

subsection \<open>Concrete values used in the examples\<close>

abbreviation example_env :: environment where
  "example_env \<equiv>
     \<lparr>hash_text = (\<lambda>t. t), encode = (\<lambda>t. Some [1]), now_iso = ''2024-05-01T10:00:00'',
      time_now = 50\<rparr>"

abbreviation storage_up :: milvus_outcome where
  "storage_up \<equiv> \<lparr>load_collection_ok = True, insert_ok = True\<rparr>"

abbreviation storage_down :: milvus_outcome where
  "storage_down \<equiv> \<lparr>load_collection_ok = True, insert_ok = False\<rparr>"

abbreviation example_row :: "string \<Rightarrow> data_row" where
  "example_row m \<equiv>
     \<lparr>user_name = ''ann'', user_id = ''user_ann'', session_id = ''s1'', timestamp = ''t'',
      user_message = m, bot_response = ''ok'', embedding = [1], intent = ''general''\<rparr>"

abbreviation four_buffered :: ChatPersistence where
  "four_buffered \<equiv>
     \<lparr>client = Some \<lparr>inserted = []\<rparr>, collection_loaded = True,
      write_buffer = [(''s1'', [example_row ''a'', example_row ''b'', example_row ''c'',
                               example_row ''d''])],
      buffer_timestamps = [(''s1'', 0)], BUFFER_TTL = 300,
      embedding_cache = EmbeddingCache_init 10\<rparr>"

abbreviation no_client :: ChatPersistence where
  "no_client \<equiv>
     \<lparr>client = None, collection_loaded = False, write_buffer = [], buffer_timestamps = [],
      BUFFER_TTL = 300, embedding_cache = EmbeddingCache_init 10\<rparr>"

section \<open>Properties of the streaming engine\<close>

subsection \<open>Facts about the stream\<close>

lemma on_event_cases:
  "on_event e = [] \<or> (\<exists>c. on_event e = [Chunk ''token'' c])
     \<or> (\<exists>n. on_event e = [Chunk ''intent'' n])"
  by (simp add: on_event_def split: option.split)

lemma on_event_not_terminal: "c \<in> set (on_event e) \<Longrightarrow> \<not> is_terminal c"
  using on_event_cases [of e] by (auto simp: is_terminal_def)



lemma streaming_raises_no_terminal:
  "streaming_raises cf steps fin \<Longrightarrow>
     \<forall>c \<in> set (process_user_message_with_context_streaming cf steps fin). \<not> is_terminal c"
proof (induction steps)
  case Nil
  then show ?case by (cases fin) simp_all
next
  case (Cons s steps)
  then show ?case by (auto dest: on_event_not_terminal split: if_splits)
qed





lemma streaming_until_cancel:
  "\<forall>s \<in> set pre. \<not> is_set s \<Longrightarrow>
     process_user_message_with_context_streaming True (pre @ rest) fin =
       concat (map (on_event \<circ> ev) pre) @ process_user_message_with_context_streaming True rest fin"
  by (induction pre) simp_all

text \<open>
  On a source that raises an \<^verbatim>\<open>Exception\<close>, the generator itself yields two terminal
  chunks, \<^verbatim>\<open>error\<close> and then \<^verbatim>\<open>done\<close>; only the first reaches the transport layer.
\<close>

lemma streaming_error_then_done:
  "process_user_message_with_context_streaming cf [] (Raises m) =
     [Chunk ''error'' m, Chunk ''done'' '''']"
  by simp






text \<open>
  C2.  A turn with a registered cancellation flag: if the flag is set when the engine
  receives its next low-level event (and was not observed set at an earlier event),
  the handler yields what the earlier events produced, then \<^verbatim>\<open>cancelled\<close>, and
  nothing more: the event at hand and all later ones produce no token.
\<close>

theorem cancelled_is_next_event:
  assumes "\<forall>s \<in> set pre. \<not> is_set s" and "is_set s"
  shows "process_user_message_with_context_streaming True (pre @ s # rest) fin =
           concat (map (on_event \<circ> ev) pre) @ [Chunk ''cancelled'' ''Stream cancelled'']"
  using assms by (simp add: streaming_until_cancel)

theorem cancelled_is_next_event_witness:
  "\<not> is_set (Step False \<lparr>event = Some ''on_chat_model_stream'', chunk_content = Some ''a'', name = None\<rparr>)
   \<and> is_set (Step True \<lparr>event = Some ''on_chat_model_stream'', chunk_content = Some ''b'', name = None\<rparr>)
   \<and> process_user_message_with_context_streaming True
       ([Step False \<lparr>event = Some ''on_chat_model_stream'', chunk_content = Some ''a'', name = None\<rparr>]
        @ Step True \<lparr>event = Some ''on_chat_model_stream'', chunk_content = Some ''b'', name = None\<rparr>
        # [Step True \<lparr>event = Some ''on_chat_model_stream'', chunk_content = Some ''c'', name = None\<rparr>])
       Exhausted
     = [Chunk ''token'' ''a'', Chunk ''cancelled'' ''Stream cancelled'']"
  using cancelled_is_next_event [of
      "[Step False \<lparr>event = Some ''on_chat_model_stream'', chunk_content = Some ''a'', name = None\<rparr>]"
      "Step True \<lparr>event = Some ''on_chat_model_stream'', chunk_content = Some ''b'', name = None\<rparr>"
      "[Step True \<lparr>event = Some ''on_chat_model_stream'', chunk_content = Some ''c'', name = None\<rparr>]"
      Exhausted]
  by (simp add: on_event_def)


section \<open>Properties of the router\<close>

text \<open>
  C6 (as amended).  In the supervisor step, when the structured decision request fails
  and the free-text request returns a text, the text (stripped) is matched against
  BookingAgent, then SupportAgent, and the decision defaults to FINISH; the step then
  returns a decision and does not raise.  Every decision the step returns, on the
  structured path as well, is one of BookingAgent, SupportAgent, FINISH.  When the
  free-text request itself raises, its exception leaves the supervisor step and no
  decision is produced.
\<close>

theorem supervisor_fallback_decision:
  "supervisor_node (Inl e) (Inr resp_content) =
     Inr (if sublist ''BookingAgent'' (strip resp_content) then ''BookingAgent''
          else if sublist ''SupportAgent'' (strip resp_content) then ''SupportAgent''
          else ''FINISH'')
   \<and> (\<exists>d. supervisor_node (Inl e) (Inr resp_content) = Inr d
          \<and> d \<in> set [''BookingAgent'', ''SupportAgent'', ''FINISH''])
   \<and> (\<exists>d. supervisor_node (Inr r) free_text = Inr d
          \<and> d \<in> set [''BookingAgent'', ''SupportAgent'', ''FINISH''])
   \<and> supervisor_node (Inl e) (Inl e') = Inl e'"
proof -
  have "\<exists>d. supervisor_node (Inr r) free_text = Inr d
          \<and> d \<in> set [''BookingAgent'', ''SupportAgent'', ''FINISH'']"
    by (cases r) (simp_all add: supervisor_node_def)
  then show ?thesis by (simp add: supervisor_node_def Let_def)
qed

theorem supervisor_fallback_decision_witness:
  "supervisor_node (Inl ''bad json'') (Inr '' SupportAgent '') = Inr ''SupportAgent''"
  using supervisor_fallback_decision [of "''bad json''" "'' SupportAgent ''"]
  by (simp add: strip_def is_space_def sublist_code(3))

text \<open>
  C6 as written fails when the decision service is down for both requests: the
  structured request raises, the free-text request raises too, and the supervisor step
  ends with that exception instead of the decision FINISH.
\<close>

theorem supervisor_fallback_raises_counterexample:
  "supervisor_node (Inl ''service unavailable'') (Inl ''service unavailable'')
     = Inl ''service unavailable''"
  by (simp add: supervisor_node_def)

section \<open>Properties of the embedding cache\<close>

lemma length_update_le: "length (AList.update k v al) \<le> Suc (length al)"
  by (induction al) auto

lemma length_delete_head: "length (AList.delete k ((k, v) # al)) \<le> length al"
  using length_delete_le [of k al] by simp

lemma EmbeddingCache_set_size:
  assumes "length (cache c) \<le> max_size c" and "EmbeddingCache_set h c t v = Inr c'"
  shows "length (cache c') \<le> max_size c' \<and> max_size c' = max_size c"
proof (cases "length (cache c) \<ge> max_size c")
  case True
  with assms(2) obtain oldest v0 rest where
    c: "cache c = (oldest, v0) # rest"
    and c': "c' = c\<lparr>cache := AList.update (h t) v (AList.delete oldest (cache c))\<rparr>"
    by (auto simp: EmbeddingCache_set_def Let_def split: list.splits)
  have "length (AList.delete oldest (cache c)) \<le> length rest"
    using c length_delete_head [of oldest v0 rest] by simp
  then have "length (cache c') \<le> Suc (length rest)"
    using c' length_update_le [of "h t" v "AList.delete oldest (cache c)"] by simp
  then show ?thesis using c c' assms(1) by simp
next
  case False
  with assms(2) have c': "c' = c\<lparr>cache := AList.update (h t) v (cache c)\<rparr>"
    by (auto simp: EmbeddingCache_set_def Let_def)
  show ?thesis using False c' length_update_le [of "h t" v "cache c"] by simp
qed

lemma EmbeddingCache_get_cache:
  "cache (snd (EmbeddingCache_get h c t)) = cache c
   \<and> max_size (snd (EmbeddingCache_get h c t)) = max_size c"
  by (simp add: EmbeddingCache_get_def Let_def split: option.split)

lemma apply_ops_size:
  "length (cache c) \<le> max_size c \<Longrightarrow>
     length (cache (apply_ops h ops c)) \<le> max_size c
     \<and> max_size (apply_ops h ops c) = max_size c"
proof (induction ops arbitrary: c)
  case Nil
  then show ?case by simp
next
  case (Cons op ops)
  show ?case
  proof (cases op)
    case (Get t)
    then show ?thesis
      using Cons.IH [of "snd (EmbeddingCache_get h c t)"] Cons.prems
      by (simp add: EmbeddingCache_get_cache)
  next
    case (Set t v)
    show ?thesis
    proof (cases "EmbeddingCache_set h c t v")
      case (Inl a)
      then show ?thesis using Set Cons.IH [of c] Cons.prems by simp
    next
      case (Inr c')
      then show ?thesis
        using Set Cons.IH [of c'] EmbeddingCache_set_size [OF Cons.prems Inr] by simp
    qed
  qed
qed

lemma EmbeddingCache_set_then_get:
  assumes "0 < max_size c"
  shows "\<exists>c'. EmbeddingCache_set h c t v = Inr c'
           \<and> fst (EmbeddingCache_get h c' t) = Some v"
  using assms
  by (auto simp: EmbeddingCache_set_def EmbeddingCache_get_def Let_def update_conv'
           split: list.splits)

lemma EmbeddingCache_set_evicts:
  assumes "length (cache c) \<ge> max_size c" and "cache c = (oldest, v0) # rest"
    and "distinct (map fst (cache c))"
  shows "EmbeddingCache_set h c t v = Inr (c\<lparr>cache := AList.update (h t) v rest\<rparr>)"
proof -
  have "oldest \<notin> fst ` set rest" using assms(2,3) by auto
  then have "AList.delete oldest (cache c) = rest"
    using assms(2) by simp
  then show ?thesis using assms(1,2) by (simp add: EmbeddingCache_set_def Let_def)
qed

text \<open>
  The scenario of \<^verbatim>\<open>test_embedding_cache_lru_eviction\<close> in
  tests/test_latency_optimizations.py: a cache of capacity 3 receives four texts with
  different hashes; the first one is gone, the other three are found.
\<close>

lemma lru_eviction_scenario:
  assumes "distinct (map h [''msg1'', ''msg2'', ''msg3'', ''msg4''])"
  shows "cache (apply_ops h [Set ''msg1'' [1], Set ''msg2'' [2], Set ''msg3'' [3], Set ''msg4'' [4] ]
                 (EmbeddingCache_init 3))
         = [(h ''msg2'', [2]), (h ''msg3'', [3]), (h ''msg4'', [4])]"
  using assms
  by (auto simp: EmbeddingCache_set_def EmbeddingCache_init_def Let_def)

lemma lru_eviction_scenario_gets:
  assumes "distinct (map h [''msg1'', ''msg2'', ''msg3'', ''msg4''])"
    and "c = apply_ops h [Set ''msg1'' [1], Set ''msg2'' [2], Set ''msg3'' [3], Set ''msg4'' [4] ]
                 (EmbeddingCache_init 3)"
  shows "fst (EmbeddingCache_get h c ''msg1'') = None
       \<and> fst (EmbeddingCache_get h c ''msg2'') = Some [2]
       \<and> fst (EmbeddingCache_get h c ''msg3'') = Some [3]
       \<and> fst (EmbeddingCache_get h c ''msg4'') = Some [4]"
proof -
  have "cache c = [(h ''msg2'', [2]), (h ''msg3'', [3]), (h ''msg4'', [4])]"
    using lru_eviction_scenario [OF assms(1)] assms(2) by simp
  then show ?thesis
    using assms(1) by (auto simp: EmbeddingCache_get_def Let_def)
qed

text \<open>
  C7.  For the embedding cache and any text \<open>T\<close>:
  \<^item> on an empty cache, \<^verbatim>\<open>get(T)\<close> is a miss;
  \<^item> in a cache of capacity at least one, in any state, \<^verbatim>\<open>set(T, V)\<close> returns and a
    following \<^verbatim>\<open>get(T)\<close> returns exactly \<open>V\<close> (with capacity 0 the call of \<^verbatim>\<open>set\<close>
    raises \<^verbatim>\<open>StopIteration\<close> and stores nothing);
  \<^item> a \<^verbatim>\<open>set\<close> on a cache that is at capacity removes the first item in insertion
    order, the entry inserted longest ago, keeps all the others in their order, and
    then stores the new value;
  \<^item> after any sequence of \<^verbatim>\<open>get\<close>/\<^verbatim>\<open>set\<close> calls on a new cache the number of
    entries is at most the capacity.
\<close>

theorem embedding_cache_correct:
  "fst (EmbeddingCache_get h (EmbeddingCache_init n) T) = None
   \<and> (0 < max_size c \<longrightarrow>
        (\<exists>c'. EmbeddingCache_set h c T V = Inr c' \<and> fst (EmbeddingCache_get h c' T) = Some V))
   \<and> (max_size c \<le> length (cache c) \<and> cache c = (oldest, v0) # rest
        \<and> distinct (map fst (cache c)) \<longrightarrow>
        EmbeddingCache_set h c T V = Inr (c\<lparr>cache := AList.update (h T) V rest\<rparr>))
   \<and> length (cache (apply_ops h ops (EmbeddingCache_init n))) \<le> n"
proof -
  have "fst (EmbeddingCache_get h (EmbeddingCache_init n) T) = None"
    by (simp add: EmbeddingCache_get_def EmbeddingCache_init_def)
  moreover have "length (cache (apply_ops h ops (EmbeddingCache_init n))) \<le> n"
    using apply_ops_size [of "EmbeddingCache_init n" h ops]
    by (simp add: EmbeddingCache_init_def)
  ultimately show ?thesis
    using EmbeddingCache_set_then_get [of c h T V]
      EmbeddingCache_set_evicts [of c oldest v0 rest h T V]
    by blast
qed

theorem embedding_cache_correct_witness:
  "EmbeddingCache_set (\<lambda>t. t)
     \<lparr>max_size = 3, cache = [(''msg1'', [1]), (''msg2'', [2]), (''msg3'', [3])],
      hits = 0, misses = 0\<rparr> ''msg4'' [4]
   = Inr \<lparr>max_size = 3, cache = [(''msg2'', [2]), (''msg3'', [3]), (''msg4'', [4])],
          hits = 0, misses = 0\<rparr>
   \<and> (\<exists>c'. EmbeddingCache_set (\<lambda>t. t)
          \<lparr>max_size = 3, cache = [(''msg1'', [1]), (''msg2'', [2]), (''msg3'', [3])],
           hits = 0, misses = 0\<rparr> ''msg4'' [4] = Inr c'
        \<and> fst (EmbeddingCache_get (\<lambda>t. t) c' ''msg4'') = Some [4])"
  using embedding_cache_correct [of "\<lambda>t. t" 3 "''msg4''"
      "\<lparr>max_size = 3, cache = [(''msg1'', [1]), (''msg2'', [2]), (''msg3'', [3])],
        hits = 0, misses = 0\<rparr>" "[4]" "''msg1''" "[1]"
      "[(''msg2'', [2]), (''msg3'', [3])]" "[]"]
  by (auto simp: EmbeddingCache_get_def)

section \<open>Properties of the conversation buffer\<close>

subsection \<open>The effect of one flush and of one store\<close>

lemma flush_session_cases:
  assumes "flush_session db p sid = (ok, p')"
  shows "(write_buffer p' = write_buffer p \<and> buffer_timestamps p' = buffer_timestamps p
            \<and> client p' = client p \<and> embedding_cache p' = embedding_cache p
            \<and> BUFFER_TTL p' = BUFFER_TTL p)
         \<or> (ok \<and> (\<exists>cl rows. client p = Some cl \<and> map_of (write_buffer p) sid = Some rows
                  \<and> rows \<noteq> [] \<and> insert_ok db
                  \<and> (collection_loaded p \<or> load_collection_ok db)
                  \<and> p' = p\<lparr>collection_loaded := True,
                           client := Some (cl\<lparr>inserted := inserted cl @ [rows]\<rparr>),
                           write_buffer := AList.delete sid (write_buffer p),
                           buffer_timestamps := AList.delete sid (buffer_timestamps p)\<rparr>))"
  using assms
  by (auto simp: flush_session_def split: option.splits if_splits)

lemma flush_session_empty:
  assumes "map_of (write_buffer p) sid = None \<or> map_of (write_buffer p) sid = Some []"
  shows "flush_session db p sid = (client p \<noteq> None, p)"
  using assms by (auto simp: flush_session_def split: option.splits)

lemma flush_session_failure:
  assumes "client p = Some cl" and "map_of (write_buffer p) sid = Some rows" and "rows \<noteq> []"
    and "\<not> insert_ok db \<or> (\<not> collection_loaded p \<and> \<not> load_collection_ok db)"
  shows "fst (flush_session db p sid) = False
         \<and> write_buffer (snd (flush_session db p sid)) = write_buffer p
         \<and> buffer_timestamps (snd (flush_session db p sid)) = buffer_timestamps p
         \<and> client (snd (flush_session db p sid)) = client p"
  using assms by (auto simp: flush_session_def)

lemma flush_session_success:
  assumes "client p = Some cl" and "map_of (write_buffer p) sid = Some rows" and "rows \<noteq> []"
    and "insert_ok db" and "collection_loaded p \<or> load_collection_ok db"
  shows "flush_session db p sid =
           (True, p\<lparr>collection_loaded := True,
                    client := Some (cl\<lparr>inserted := inserted cl @ [rows]\<rparr>),
                    write_buffer := AList.delete sid (write_buffer p),
                    buffer_timestamps := AList.delete sid (buffer_timestamps p)\<rparr>)"
  using assms by (auto simp: flush_session_def)

lemma add_to_buffer_lookup:
  "map_of (write_buffer (add_to_buffer now p sid row)) s =
     (if s = sid
      then Some ((case map_of (write_buffer p) sid of None \<Rightarrow> [] | Some rows \<Rightarrow> rows) @ [row])
      else map_of (write_buffer p) s)"
  by (simp add: add_to_buffer_def update_conv' split: option.split)

lemma add_to_buffer_size:
  "current_buffer_size (add_to_buffer now p sid row) sid = Suc (current_buffer_size p sid)"
  by (simp add: current_buffer_size_def add_to_buffer_lookup split: option.split)

lemma add_to_buffer_client: "client (add_to_buffer now p sid row) = client p"
  by (simp add: add_to_buffer_def split: option.split)

lemma add_to_buffer_loaded: "collection_loaded (add_to_buffer now p sid row) = collection_loaded p"
  by (simp add: add_to_buffer_def split: option.split)

lemma store_conversation_cases:
  assumes "store_conversation env db p un uid sid um br it = (ok, p')"
  shows "(\<not> ok \<and> write_buffer p' = write_buffer p \<and> buffer_timestamps p' = buffer_timestamps p
            \<and> client p' = client p)
         \<or> (\<exists>cl e c2 p1. client p = Some cl
               \<and> cached_embedding env (embedding_cache p) (um @ '' '' @ br) = (Some e, c2)
               \<and> p1 = add_to_buffer (time_now env) (p\<lparr>embedding_cache := c2\<rparr>) sid
                        (make_data_row un uid sid um br it (now_iso env) e)
               \<and> (BATCH_SIZE \<le> current_buffer_size p1 sid
                     \<longrightarrow> flush_session db p1 sid = (ok, p'))
               \<and> (\<not> BATCH_SIZE \<le> current_buffer_size p1 sid \<longrightarrow> ok \<and> p' = p1))"
  using assms
  by (auto simp: store_conversation_def Let_def split: option.splits prod.splits if_splits)


lemma flush_session_true_size:
  assumes "flush_session db p sid = (True, p')"
  shows "current_buffer_size p' sid = 0"
  using assms
  by (auto simp: flush_session_def current_buffer_size_def delete_conv'
           split: option.splits if_splits)

lemma store_conversation_true_size:
  assumes "store_conversation env db p un uid sid um br it = (True, p')"
  shows "current_buffer_size p' sid < BATCH_SIZE"
proof -
  from store_conversation_cases [OF assms] obtain e c2 p1 where
    p1: "p1 = add_to_buffer (time_now env) (p\<lparr>embedding_cache := c2\<rparr>) sid
               (make_data_row un uid sid um br it (now_iso env) e)"
    and step: "BATCH_SIZE \<le> current_buffer_size p1 sid
                 \<Longrightarrow> flush_session db p1 sid = (True, p')"
              "\<not> BATCH_SIZE \<le> current_buffer_size p1 sid \<Longrightarrow> p' = p1"
    by blast
  show ?thesis
  proof (cases "BATCH_SIZE \<le> current_buffer_size p1 sid")
    case True
    with step(1) have "flush_session db p1 sid = (True, p')" by simp
    from flush_session_true_size [OF this] show ?thesis by (simp add: BATCH_SIZE_def)
  next
    case False
    with step(2) show ?thesis by simp
  qed
qed

lemma store_conversation_flushes:
  assumes cl: "client p = Some cl"
    and emb: "cached_embedding env (embedding_cache p) (um @ '' '' @ br) = (Some e, c2)"
    and full: "BATCH_SIZE \<le> Suc (current_buffer_size p sid)"
    and ok: "insert_ok db" "collection_loaded p \<or> load_collection_ok db"
  shows "fst (store_conversation env db p un uid sid um br it) = True
     \<and> map_of (write_buffer (snd (store_conversation env db p un uid sid um br it))) sid = None
     \<and> map_of (buffer_timestamps (snd (store_conversation env db p un uid sid um br it))) sid = None
     \<and> client (snd (store_conversation env db p un uid sid um br it)) =
         Some (cl\<lparr>inserted := inserted cl @
            [(case map_of (write_buffer p) sid of None \<Rightarrow> [] | Some rows \<Rightarrow> rows)
              @ [make_data_row un uid sid um br it (now_iso env) e] ]\<rparr>)"
proof -
  let ?row = "make_data_row un uid sid um br it (now_iso env) e"
  let ?p1 = "add_to_buffer (time_now env) (p\<lparr>embedding_cache := c2\<rparr>) sid ?row"
  let ?rows = "(case map_of (write_buffer p) sid of None \<Rightarrow> [] | Some rows \<Rightarrow> rows) @ [?row]"
  have "current_buffer_size (p\<lparr>embedding_cache := c2\<rparr>) sid = current_buffer_size p sid"
    by (simp add: current_buffer_size_def)
  then have size: "BATCH_SIZE \<le> current_buffer_size ?p1 sid"
    using full by (simp add: add_to_buffer_size)
  have st: "store_conversation env db p un uid sid um br it = flush_session db ?p1 sid"
    using cl emb size by (simp add: store_conversation_def Let_def)
  have look: "map_of (write_buffer ?p1) sid = Some ?rows"
    by (simp add: add_to_buffer_lookup)
  have "flush_session db ?p1 sid =
          (True, ?p1\<lparr>collection_loaded := True,
                    client := Some (cl\<lparr>inserted := inserted cl @ [?rows]\<rparr>),
                    write_buffer := AList.delete sid (write_buffer ?p1),
                    buffer_timestamps := AList.delete sid (buffer_timestamps ?p1)\<rparr>)"
    using flush_session_success [of ?p1 cl sid ?rows db] look cl ok
    by (simp add: add_to_buffer_client add_to_buffer_loaded)
  then show ?thesis
    unfolding st by (simp add: delete_conv')
qed

lemmas persistence_defs =
  store_conversation_def cached_embedding_def EmbeddingCache_get_def EmbeddingCache_set_def
  EmbeddingCache_init_def make_data_row_def add_to_buffer_def current_buffer_size_def
  BATCH_SIZE_def flush_session_def cleanup_stale_buffers_def stale_sessions_def
  cleanup_one_def force_remove_def Let_def

subsection \<open>Flushing\<close>

text \<open>
  C4 (as amended).  For a session key whose buffer list is absent or empty,
  \<^verbatim>\<open>flush_session\<close> changes no state; it returns success when the storage client is
  available, and returns \<^verbatim>\<open>False\<close> when the client is unavailable (the guard on the
  client comes before the test for an empty buffer).
\<close>

theorem flush_session_empty_buffer:
  assumes "map_of (write_buffer p) sid = None \<or> map_of (write_buffer p) sid = Some []"
  shows "flush_session db p sid = (client p \<noteq> None, p)"
  using assms by (rule flush_session_empty)

theorem flush_session_empty_buffer_witness:
  "flush_session storage_up (four_buffered\<lparr>write_buffer := [(''s1'', [])]\<rparr>) ''s1''
     = (True, four_buffered\<lparr>write_buffer := [(''s1'', [])]\<rparr>)
   \<and> flush_session storage_down four_buffered ''other'' = (True, four_buffered)"
  using flush_session_empty_buffer [of "four_buffered\<lparr>write_buffer := [(''s1'', [])]\<rparr>" "''s1''" storage_up]
    flush_session_empty_buffer [of four_buffered "''other''" storage_down]
  by simp

text \<open>
  C4 as written fails without a client: flushing a session that has no buffer
  returns \<^verbatim>\<open>False\<close>, not success.
\<close>

theorem flush_session_no_client_counterexample:
  "flush_session storage_up no_client ''s1'' = (False, no_client)"
  by (simp add: flush_session_def)

text \<open>
  C5.  For a session key with a non-empty buffer and an available client, if the batch
  write fails during the flush (\<^verbatim>\<open>insert\<close> raises, or \<^verbatim>\<open>load_collection\<close> raises
  just before it), then the buffered lists and the creation timestamps are unchanged
  after the call, nothing has been recorded as inserted, and the call returns
  \<^verbatim>\<open>False\<close>.
\<close>

theorem flush_session_write_failure:
  assumes "client p = Some cl" and "map_of (write_buffer p) sid = Some rows" and "rows \<noteq> []"
    and "\<not> insert_ok db \<or> (\<not> collection_loaded p \<and> \<not> load_collection_ok db)"
  shows "fst (flush_session db p sid) = False
         \<and> write_buffer (snd (flush_session db p sid)) = write_buffer p
         \<and> buffer_timestamps (snd (flush_session db p sid)) = buffer_timestamps p
         \<and> client (snd (flush_session db p sid)) = client p"
  using assms by (rule flush_session_failure)

theorem flush_session_write_failure_witness:
  "flush_session storage_down four_buffered ''s1'' = (False, four_buffered)"
  using flush_session_write_failure [of four_buffered "\<lparr>inserted = []\<rparr>" "''s1''"
      "[example_row ''a'', example_row ''b'', example_row ''c'', example_row ''d'']" storage_down]
  by (simp add: flush_session_def)

subsection \<open>Storing a turn\<close>

lemma store_conversation_keeps_bound:
  assumes before: "current_buffer_size p sid < BATCH_SIZE"
    and ok: "insert_ok db" "collection_loaded p \<or> load_collection_ok db"
  shows "current_buffer_size (snd (store_conversation env db p un uid sid um br it)) sid < BATCH_SIZE"
proof -
  obtain res p' where st: "store_conversation env db p un uid sid um br it = (res, p')"
    by (cases "store_conversation env db p un uid sid um br it")
  from store_conversation_cases [OF st]
  consider (same) "write_buffer p' = write_buffer p"
    | (added) cl e c2 p1 where "client p = Some cl"
        "p1 = add_to_buffer (time_now env) (p\<lparr>embedding_cache := c2\<rparr>) sid
                (make_data_row un uid sid um br it (now_iso env) e)"
        "BATCH_SIZE \<le> current_buffer_size p1 sid \<Longrightarrow> flush_session db p1 sid = (res, p')"
        "\<not> BATCH_SIZE \<le> current_buffer_size p1 sid \<Longrightarrow> p' = p1"
    by blast
  then have "current_buffer_size p' sid < BATCH_SIZE"
  proof cases
    case same
    then show ?thesis using before by (simp add: current_buffer_size_def)
  next
    case added
    show ?thesis
    proof (cases "BATCH_SIZE \<le> current_buffer_size p1 sid")
      case False
      with added(4) show ?thesis by simp
    next
      case True
      let ?rows = "(case map_of (write_buffer (p\<lparr>embedding_cache := c2\<rparr>)) sid of
                      None \<Rightarrow> [] | Some rows \<Rightarrow> rows)
                   @ [make_data_row un uid sid um br it (now_iso env) e]"
      have look: "map_of (write_buffer p1) sid = Some ?rows"
        unfolding added(2) by (simp add: add_to_buffer_lookup)
      have "client p1 = Some cl" "collection_loaded p1 \<or> load_collection_ok db"
        using added(1) ok(2) unfolding added(2)
        by (simp_all add: add_to_buffer_client add_to_buffer_loaded)
      from flush_session_success [OF this(1) look _ ok(1) this(2)]
      have "fst (flush_session db p1 sid) = True" by simp
      with added(3) [OF True] have "flush_session db p1 sid = (True, p')" by simp
      from flush_session_true_size [OF this] show ?thesis by (simp add: BATCH_SIZE_def)
    qed
  qed
  then show ?thesis using st by simp
qed

text \<open>
  C3 (as amended).  A call of \<^verbatim>\<open>store_conversation\<close> on a session whose buffered
  list is shorter than \<open>BATCH_SIZE\<close> leaves it shorter than \<open>BATCH_SIZE\<close> (or absent)
  immediately after the call, unless the flush triggered at the threshold fails to
  write; in particular this holds whenever the call returns \<^verbatim>\<open>True\<close>.  Reaching the
  threshold triggers a flush within the same call; when the batch write succeeds, the
  list (the earlier records and the new one) is handed to the storage client and the
  session's list and timestamp are removed.
\<close>

theorem store_conversation_batch_bound:
  "(store_conversation env db p un uid sid um br it = (True, p')
      \<longrightarrow> current_buffer_size p' sid < BATCH_SIZE)
   \<and> (current_buffer_size p sid < BATCH_SIZE
       \<and> insert_ok db \<and> (collection_loaded p \<or> load_collection_ok db)
      \<longrightarrow> current_buffer_size (snd (store_conversation env db p un uid sid um br it)) sid
            < BATCH_SIZE)
   \<and> (client p = Some cl
       \<and> cached_embedding env (embedding_cache p) (um @ '' '' @ br) = (Some e, c2)
       \<and> BATCH_SIZE \<le> Suc (current_buffer_size p sid)
       \<and> insert_ok db \<and> (collection_loaded p \<or> load_collection_ok db)
      \<longrightarrow> fst (store_conversation env db p un uid sid um br it) = True
        \<and> map_of (write_buffer (snd (store_conversation env db p un uid sid um br it))) sid = None
        \<and> map_of (buffer_timestamps (snd (store_conversation env db p un uid sid um br it))) sid = None
        \<and> client (snd (store_conversation env db p un uid sid um br it)) =
            Some (cl\<lparr>inserted := inserted cl @
               [(case map_of (write_buffer p) sid of None \<Rightarrow> [] | Some rows \<Rightarrow> rows)
                 @ [make_data_row un uid sid um br it (now_iso env) e] ]\<rparr>))"
  using store_conversation_true_size [of env db p un uid sid um br it p']
    store_conversation_keeps_bound [of p sid db env un uid um br it]
    store_conversation_flushes [of p cl env um br e c2 sid db un uid it]
  by blast

theorem store_conversation_batch_bound_witness:
  "store_conversation example_env storage_up four_buffered
      ''ann'' ''user_ann'' ''s1'' ''e'' ''ok'' ''general''
   = (True,
      \<lparr>client = Some \<lparr>inserted =
          [ [example_row ''a'', example_row ''b'', example_row ''c'', example_row ''d'',
            make_data_row ''ann'' ''user_ann'' ''s1'' ''e'' ''ok'' ''general''
              ''2024-05-01T10:00:00'' [1] ] ]\<rparr>,
       collection_loaded = True, write_buffer = [], buffer_timestamps = [],
       BUFFER_TTL = 300,
       embedding_cache = \<lparr>max_size = 10, cache = [(''e ok'', [1])], hits = 0, misses = 1\<rparr>\<rparr>)
   \<and> current_buffer_size
        (snd (store_conversation example_env storage_up four_buffered
                ''ann'' ''user_ann'' ''s1'' ''e'' ''ok'' ''general'')) ''s1'' < BATCH_SIZE"
  using store_conversation_batch_bound [of example_env storage_up four_buffered
      "''ann''" "''user_ann''" "''s1''" "''e''" "''ok''" "''general''"
      "snd (store_conversation example_env storage_up four_buffered
                ''ann'' ''user_ann'' ''s1'' ''e'' ''ok'' ''general'')"
      "\<lparr>inserted = []\<rparr>" "[1]"
      "\<lparr>max_size = 10, cache = [(''e ok'', [1])], hits = 0, misses = 1\<rparr>"]
  by (simp add: persistence_defs)

text \<open>
  C3 as written fails when the flush triggered at the threshold cannot write:
  the call returns \<^verbatim>\<open>False\<close> and the session keeps its five records, which is not
  fewer than \<open>BATCH_SIZE\<close>.
\<close>

theorem store_conversation_failed_flush_counterexample:
  "store_conversation example_env storage_down four_buffered
      ''ann'' ''user_ann'' ''s1'' ''e'' ''ok'' ''general''
   = (False,
      \<lparr>client = Some \<lparr>inserted = []\<rparr>, collection_loaded = True,
       write_buffer = [(''s1'', [example_row ''a'', example_row ''b'', example_row ''c'',
          example_row ''d'',
          make_data_row ''ann'' ''user_ann'' ''s1'' ''e'' ''ok'' ''general''
              ''2024-05-01T10:00:00'' [1] ])],
       buffer_timestamps = [(''s1'', 0)], BUFFER_TTL = 300,
       embedding_cache = \<lparr>max_size = 10, cache = [(''e ok'', [1])], hits = 0, misses = 1\<rparr>\<rparr>)
   \<and> \<not> current_buffer_size
        (snd (store_conversation example_env storage_down four_buffered
                ''ann'' ''user_ann'' ''s1'' ''e'' ''ok'' ''general'')) ''s1'' < BATCH_SIZE"
  by (simp add: persistence_defs)

subsection \<open>Truncation of buffered records\<close>

lemma make_data_row_fields:
  "user_name (make_data_row un uid sid um br it stamp e) = take 255 un
   \<and> user_id (make_data_row un uid sid um br it stamp e) = take 255 uid
   \<and> session_id (make_data_row un uid sid um br it stamp e) = take 255 sid
   \<and> user_message (make_data_row un uid sid um br it stamp e) = take 2000 um
   \<and> bot_response (make_data_row un uid sid um br it stamp e) = take 2000 br
   \<and> intent (make_data_row un uid sid um br it stamp e) = take 100 it"
  by (simp add: make_data_row_def)

lemma make_data_row_bounds:
  "length (user_name (make_data_row un uid sid um br it stamp e)) \<le> 255
   \<and> length (user_id (make_data_row un uid sid um br it stamp e)) \<le> 255
   \<and> length (session_id (make_data_row un uid sid um br it stamp e)) \<le> 255
   \<and> length (user_message (make_data_row un uid sid um br it stamp e)) \<le> 2000
   \<and> length (bot_response (make_data_row un uid sid um br it stamp e)) \<le> 2000
   \<and> length (intent (make_data_row un uid sid um br it stamp e)) \<le> 100"
  by (simp add: make_data_row_def)

lemma flush_session_rows:
  assumes "flush_session db p sid = (ok, p')" and "map_of (write_buffer p') s = Some rows"
  shows "map_of (write_buffer p) s = Some rows"
  using flush_session_cases [OF assms(1)] assms(2)
  by (auto simp: delete_conv' split: if_splits)

lemma store_conversation_new_rows:
  assumes st: "store_conversation env db p un uid sid um br it = (ok, p')"
    and look: "map_of (write_buffer p') s = Some rows'" and r: "r \<in> set rows'"
  shows "(\<exists>rows. map_of (write_buffer p) s = Some rows \<and> r \<in> set rows)
         \<or> (s = sid \<and> (\<exists>e. r = make_data_row un uid sid um br it (now_iso env) e))"
proof -
  from store_conversation_cases [OF st]
  consider (same) "write_buffer p' = write_buffer p"
    | (added) e c2 p1 where
        "p1 = add_to_buffer (time_now env) (p\<lparr>embedding_cache := c2\<rparr>) sid
                (make_data_row un uid sid um br it (now_iso env) e)"
        "BATCH_SIZE \<le> current_buffer_size p1 sid \<Longrightarrow> flush_session db p1 sid = (ok, p')"
        "\<not> BATCH_SIZE \<le> current_buffer_size p1 sid \<Longrightarrow> p' = p1"
    by blast
  then show ?thesis
  proof cases
    case same
    then show ?thesis using look r by auto
  next
    case added
    have "map_of (write_buffer p1) s = Some rows'"
    proof (cases "BATCH_SIZE \<le> current_buffer_size p1 sid")
      case True
      from flush_session_rows [OF added(2) [OF True] look] show ?thesis .
    next
      case False
      with added(3) look show ?thesis by simp
    qed
    then show ?thesis
      using r unfolding added(1)
      by (auto simp: add_to_buffer_lookup split: if_splits option.splits)
  qed
qed

lemma store_conversation_keeps_row:
  assumes cl: "client p = Some cl"
    and emb: "cached_embedding env (embedding_cache p) (um @ '' '' @ br) = (Some e, c2)"
  shows "(\<exists>rows. map_of (write_buffer (snd (store_conversation env db p un uid sid um br it))) sid
              = Some (rows @ [make_data_row un uid sid um br it (now_iso env) e]))
         \<or> (\<exists>cl' rows. client (snd (store_conversation env db p un uid sid um br it)) = Some cl'
              \<and> inserted cl' = inserted cl @ [rows @ [make_data_row un uid sid um br it (now_iso env) e] ])"
proof -
  let ?row = "make_data_row un uid sid um br it (now_iso env) e"
  let ?p1 = "add_to_buffer (time_now env) (p\<lparr>embedding_cache := c2\<rparr>) sid ?row"
  let ?old = "case map_of (write_buffer p) sid of None \<Rightarrow> [] | Some rows \<Rightarrow> rows"
  have look: "map_of (write_buffer ?p1) sid = Some (?old @ [?row])"
    by (simp add: add_to_buffer_lookup)
  have cl1: "client ?p1 = Some cl" using cl by (simp add: add_to_buffer_client)
  show ?thesis
  proof (cases "BATCH_SIZE \<le> current_buffer_size ?p1 sid")
    case False
    then have "store_conversation env db p un uid sid um br it = (True, ?p1)"
      using cl emb by (simp add: store_conversation_def Let_def)
    then show ?thesis using look by auto
  next
    case True
    then have st: "store_conversation env db p un uid sid um br it = flush_session db ?p1 sid"
      using cl emb by (simp add: store_conversation_def Let_def)
    obtain ok p' where f: "flush_session db ?p1 sid = (ok, p')"
      by (cases "flush_session db ?p1 sid")
    from flush_session_cases [OF f]
    have "write_buffer p' = write_buffer ?p1
          \<or> client p' = Some (cl\<lparr>inserted := inserted cl @ [?old @ [?row] ]\<rparr>)"
      using look cl1 by auto
    then show ?thesis
      unfolding st f using look by auto
  qed
qed

text \<open>
  C10.  Every record that a call of \<^verbatim>\<open>store_conversation\<close> adds to the write buffer
  is the row built from the call's arguments with \<^verbatim>\<open>user_message\<close> and
  \<^verbatim>\<open>bot_response\<close> cut to their first 2000 characters, \<^verbatim>\<open>user_name\<close>,
  \<^verbatim>\<open>user_id\<close> and \<^verbatim>\<open>session_id\<close> to 255 and \<^verbatim>\<open>intent\<close> to 100, so each of these
  fields is within its bound.  A turn is not rejected for its length: with a client and
  an embedding, the truncated row ends the session's list, or ends the batch handed to
  the storage client when the call flushed.
\<close>

theorem stored_rows_truncated:
  "(map_of (write_buffer (snd (store_conversation env db p un uid sid um br it))) s = Some rows'
      \<and> r \<in> set rows' \<longrightarrow>
        (\<exists>rows. map_of (write_buffer p) s = Some rows \<and> r \<in> set rows)
        \<or> (s = sid \<and> (\<exists>e. r = make_data_row un uid sid um br it (now_iso env) e)))
   \<and> (client p = Some cl
        \<and> cached_embedding env (embedding_cache p) (um @ '' '' @ br) = (Some e, c2) \<longrightarrow>
        (\<exists>rows. map_of (write_buffer (snd (store_conversation env db p un uid sid um br it))) sid
              = Some (rows @ [make_data_row un uid sid um br it (now_iso env) e]))
        \<or> (\<exists>cl' rows. client (snd (store_conversation env db p un uid sid um br it)) = Some cl'
              \<and> inserted cl' = inserted cl @ [rows @ [make_data_row un uid sid um br it (now_iso env) e] ]))
   \<and> user_name (make_data_row un uid sid um br it stamp e) = take 255 un
   \<and> user_id (make_data_row un uid sid um br it stamp e) = take 255 uid
   \<and> session_id (make_data_row un uid sid um br it stamp e) = take 255 sid
   \<and> user_message (make_data_row un uid sid um br it stamp e) = take 2000 um
   \<and> bot_response (make_data_row un uid sid um br it stamp e) = take 2000 br
   \<and> intent (make_data_row un uid sid um br it stamp e) = take 100 it
   \<and> length (user_name (make_data_row un uid sid um br it stamp e)) \<le> 255
   \<and> length (user_id (make_data_row un uid sid um br it stamp e)) \<le> 255
   \<and> length (session_id (make_data_row un uid sid um br it stamp e)) \<le> 255
   \<and> length (user_message (make_data_row un uid sid um br it stamp e)) \<le> 2000
   \<and> length (bot_response (make_data_row un uid sid um br it stamp e)) \<le> 2000
   \<and> length (intent (make_data_row un uid sid um br it stamp e)) \<le> 100"
proof -
  have new: "map_of (write_buffer (snd (store_conversation env db p un uid sid um br it))) s = Some rows'
      \<and> r \<in> set rows' \<longrightarrow>
        (\<exists>rows. map_of (write_buffer p) s = Some rows \<and> r \<in> set rows)
        \<or> (s = sid \<and> (\<exists>e. r = make_data_row un uid sid um br it (now_iso env) e))"
    using store_conversation_new_rows
      [of env db p un uid sid um br it
          "fst (store_conversation env db p un uid sid um br it)"
          "snd (store_conversation env db p un uid sid um br it)" s rows' r]
    by simp
  show ?thesis
    using new store_conversation_keeps_row [of p cl env um br e c2 db un uid sid it]
      make_data_row_fields [of un uid sid um br it stamp e]
      make_data_row_bounds [of un uid sid um br it stamp e]
    by blast
qed

theorem stored_rows_truncated_witness:
  "snd (store_conversation example_env storage_up
          (four_buffered\<lparr>write_buffer := [], buffer_timestamps := []\<rparr>)
          ''ann'' ''user_ann'' ''s1'' (replicate 2001 CHR ''x'') ''ok'' ''general'')
   = four_buffered
       \<lparr>write_buffer := [(''s1'',
           [\<lparr>user_name = ''ann'', user_id = ''user_ann'', session_id = ''s1'',
             timestamp = ''2024-05-01T10:00:00'', user_message = replicate 2000 CHR ''x'',
             bot_response = ''ok'', embedding = [1], intent = ''general''\<rparr>])],
        buffer_timestamps := [(''s1'', 50)],
        embedding_cache := \<lparr>max_size = 10,
           cache = [(replicate 2001 CHR ''x'' @ '' ok'', [1])], hits = 0, misses = 1\<rparr>\<rparr>"
  using stored_rows_truncated [of example_env storage_up
      "four_buffered\<lparr>write_buffer := [], buffer_timestamps := []\<rparr>"
      "''ann''" "''user_ann''" "''s1''" "replicate 2001 CHR ''x''" "''ok''" "''general''"
      "''s1''" "[make_data_row ''ann'' ''user_ann'' ''s1'' (replicate 2001 CHR ''x'') ''ok''
                  ''general'' ''2024-05-01T10:00:00'' [1] ]"
      "make_data_row ''ann'' ''user_ann'' ''s1'' (replicate 2001 CHR ''x'') ''ok''
                  ''general'' ''2024-05-01T10:00:00'' [1]"
      "\<lparr>inserted = []\<rparr>" "[1]"
      "\<lparr>max_size = 10, cache = [(replicate 2001 CHR ''x'' @ '' ok'', [1])], hits = 0, misses = 1\<rparr>"
      "''2024-05-01T10:00:00''"]
  by (simp add: persistence_defs)

subsection \<open>The periodic sweep\<close>

lemma cleanup_one_other:
  assumes "s \<noteq> sid"
  shows "map_of (write_buffer (cleanup_one out p sid)) s = map_of (write_buffer p) s
       \<and> map_of (buffer_timestamps (cleanup_one out p sid)) s = map_of (buffer_timestamps p) s"
proof -
  obtain ok p1 where f: "flush_session out p sid = (ok, p1)" by (cases "flush_session out p sid")
  from flush_session_cases [OF f] assms
  have "map_of (write_buffer p1) s = map_of (write_buffer p) s
      \<and> map_of (buffer_timestamps p1) s = map_of (buffer_timestamps p) s"
    by (auto simp: delete_conv')
  then show ?thesis
    using f assms by (simp add: cleanup_one_def force_remove_def delete_conv')
qed

lemma cleanup_one_keeps_empty:
  assumes "current_buffer_size p s = 0"
  shows "current_buffer_size (cleanup_one out p sid) s = 0"
proof (cases "s = sid")
  case False
  then show ?thesis
    using assms cleanup_one_other [of s sid out p] by (simp add: current_buffer_size_def)
next
  case True
  obtain ok p1 where f: "flush_session out p sid = (ok, p1)" by (cases "flush_session out p sid")
  from flush_session_cases [OF f] assms True
  have "current_buffer_size p1 sid = 0"
    by (auto simp: current_buffer_size_def delete_conv')
  then show ?thesis
    using f True by (simp add: cleanup_one_def force_remove_def current_buffer_size_def delete_conv')
qed

lemma cleanup_one_keeps_absent:
  assumes "map_of (write_buffer p) s = None \<and> map_of (buffer_timestamps p) s = None"
  shows "map_of (write_buffer (cleanup_one out p sid)) s = None
       \<and> map_of (buffer_timestamps (cleanup_one out p sid)) s = None"
proof (cases "s = sid")
  case False
  then show ?thesis using assms cleanup_one_other [of s sid out p] by simp
next
  case True
  obtain ok p1 where f: "flush_session out p sid = (ok, p1)" by (cases "flush_session out p sid")
  from flush_session_cases [OF f] assms True
  have "map_of (write_buffer p1) sid = None \<and> map_of (buffer_timestamps p1) sid = None"
    by (auto simp: delete_conv')
  then show ?thesis
    using f True by (simp add: cleanup_one_def force_remove_def delete_conv')
qed

lemma cleanup_one_self:
  shows "current_buffer_size (cleanup_one out p sid) sid = 0"
    and "map_of (write_buffer p) sid = Some rows \<Longrightarrow> rows \<noteq> [] \<Longrightarrow>
           map_of (write_buffer (cleanup_one out p sid)) sid = None
           \<and> map_of (buffer_timestamps (cleanup_one out p sid)) sid = None"
proof -
  obtain ok p1 where f: "flush_session out p sid = (ok, p1)" by (cases "flush_session out p sid")
  show "current_buffer_size (cleanup_one out p sid) sid = 0"
  proof (cases ok)
    case True
    then show ?thesis using f flush_session_true_size [of out p sid p1]
      by (simp add: cleanup_one_def)
  next
    case False
    then show ?thesis using f
      by (simp add: cleanup_one_def force_remove_def current_buffer_size_def delete_conv')
  qed
  assume rows: "map_of (write_buffer p) sid = Some rows" "rows \<noteq> []"
  show "map_of (write_buffer (cleanup_one out p sid)) sid = None
           \<and> map_of (buffer_timestamps (cleanup_one out p sid)) sid = None"
  proof (cases ok)
    case True
    with f rows have "write_buffer p1 = AList.delete sid (write_buffer p)
        \<and> buffer_timestamps p1 = AList.delete sid (buffer_timestamps p)"
      by (auto simp: flush_session_def split: option.splits if_splits)
    then show ?thesis using f True
      by (simp add: cleanup_one_def delete_conv')
  next
    case False
    then show ?thesis using f
      by (simp add: cleanup_one_def force_remove_def delete_conv')
  qed
qed

lemma cleanup_one_client:
  assumes "client p = Some cl"
  shows "\<exists>cl'. client (cleanup_one out p sid) = Some cl' \<and> set (inserted cl) \<subseteq> set (inserted cl')"
proof -
  obtain ok p1 where f: "flush_session out p sid = (ok, p1)" by (cases "flush_session out p sid")
  from flush_session_cases [OF f] assms
  have "\<exists>cl'. client p1 = Some cl' \<and> set (inserted cl) \<subseteq> set (inserted cl')"
    by auto
  then show ?thesis using f by (simp add: cleanup_one_def force_remove_def)
qed

lemma cleanup_one_loaded:
  "collection_loaded p \<Longrightarrow> collection_loaded (cleanup_one out p sid)"
  by (auto simp: cleanup_one_def force_remove_def flush_session_def split: option.splits)

lemma cleanup_one_inserts:
  assumes "client p = Some cl" and "map_of (write_buffer p) sid = Some rows" and "rows \<noteq> []"
    and "insert_ok out" and "collection_loaded p \<or> load_collection_ok out"
  shows "client (cleanup_one out p sid) = Some (cl\<lparr>inserted := inserted cl @ [rows]\<rparr>)"
  using flush_session_success [OF assms] by (simp add: cleanup_one_def)

lemma cleanup_one_discards:
  assumes "client p = Some cl" and "map_of (write_buffer p) sid = Some rows" and "rows \<noteq> []"
    and "\<not> insert_ok out \<or> (\<not> collection_loaded p \<and> \<not> load_collection_ok out)"
  shows "client (cleanup_one out p sid) = client p
       \<and> map_of (write_buffer (cleanup_one out p sid)) sid = None
       \<and> map_of (buffer_timestamps (cleanup_one out p sid)) sid = None"
proof -
  obtain ok p1 where f: "flush_session out p sid = (ok, p1)" by (cases "flush_session out p sid")
  from flush_session_failure [OF assms] f
  have "\<not> ok \<and> client p1 = client p" by simp
  then show ?thesis using f by (simp add: cleanup_one_def force_remove_def delete_conv')
qed

lemma cleanup_loop_keeps_empty:
  "current_buffer_size p s = 0 \<Longrightarrow> current_buffer_size (cleanup_loop db p sids) s = 0"
  by (induction sids arbitrary: p) (simp_all add: cleanup_one_keeps_empty)

lemma cleanup_loop_keeps_absent:
  "map_of (write_buffer p) s = None \<and> map_of (buffer_timestamps p) s = None \<Longrightarrow>
     map_of (write_buffer (cleanup_loop db p sids)) s = None
     \<and> map_of (buffer_timestamps (cleanup_loop db p sids)) s = None"
proof (induction sids arbitrary: p)
  case Nil
  then show ?case by simp
next
  case (Cons a sids)
  from cleanup_one_keeps_absent [OF Cons.prems, of "db a" a]
  show ?case using Cons.IH by simp
qed

lemma cleanup_loop_client:
  "client p = Some cl \<Longrightarrow>
     \<exists>cl'. client (cleanup_loop db p sids) = Some cl' \<and> set (inserted cl) \<subseteq> set (inserted cl')"
proof (induction sids arbitrary: p cl)
  case Nil
  then show ?case by simp
next
  case (Cons a sids)
  from cleanup_one_client [OF Cons.prems, of "db a" a] obtain cl1 where
    c1: "client (cleanup_one (db a) p a) = Some cl1" "set (inserted cl) \<subseteq> set (inserted cl1)"
    by blast
  from Cons.IH [OF c1(1)] obtain cl' where
    "client (cleanup_loop db (cleanup_one (db a) p a) sids) = Some cl'"
    "set (inserted cl1) \<subseteq> set (inserted cl')"
    by blast
  then show ?case using c1(2) by auto
qed

lemma cleanup_loop_stale_empty:
  "sid \<in> set sids \<Longrightarrow> current_buffer_size (cleanup_loop db p sids) sid = 0"
proof (induction sids arbitrary: p)
  case Nil
  then show ?case by simp
next
  case (Cons a sids)
  show ?case
  proof (cases "a = sid")
    case True
    then show ?thesis
      using cleanup_loop_keeps_empty [OF cleanup_one_self(1), of db "db sid" p sid sids] by simp
  next
    case False
    with Cons.prems have "sid \<in> set sids" by simp
    from Cons.IH [OF this] show ?thesis by simp
  qed
qed

lemma cleanup_loop_stale_removed:
  "sid \<in> set sids \<Longrightarrow> map_of (write_buffer p) sid = Some rows \<Longrightarrow> rows \<noteq> [] \<Longrightarrow>
     map_of (write_buffer (cleanup_loop db p sids)) sid = None
     \<and> map_of (buffer_timestamps (cleanup_loop db p sids)) sid = None"
proof (induction sids arbitrary: p)
  case Nil
  then show ?case by simp
next
  case (Cons a sids)
  show ?case
  proof (cases "a = sid")
    case True
    from cleanup_one_self(2) [OF Cons.prems(2,3), of "db sid"]
    show ?thesis
      using True cleanup_loop_keeps_absent [of "cleanup_one (db sid) p sid" sid db sids] by simp
  next
    case False
    with Cons.prems have "sid \<in> set sids" by simp
    moreover have "map_of (write_buffer (cleanup_one (db a) p a)) sid = Some rows"
      using False cleanup_one_other [of sid a "db a" p] Cons.prems(2) by simp
    ultimately show ?thesis using Cons.IH [of "cleanup_one (db a) p a"] Cons.prems(3) by simp
  qed
qed

lemma cleanup_loop_stale_flushed:
  "sid \<in> set sids \<Longrightarrow> client p = Some cl \<Longrightarrow> map_of (write_buffer p) sid = Some rows \<Longrightarrow>
   rows \<noteq> [] \<Longrightarrow> insert_ok (db sid) \<Longrightarrow> collection_loaded p \<or> load_collection_ok (db sid) \<Longrightarrow>
     \<exists>cl'. client (cleanup_loop db p sids) = Some cl' \<and> rows \<in> set (inserted cl')"
proof (induction sids arbitrary: p cl)
  case Nil
  then show ?case by simp
next
  case (Cons a sids)
  show ?case
  proof (cases "a = sid")
    case True
    have c1: "client (cleanup_one (db sid) p sid) = Some (cl\<lparr>inserted := inserted cl @ [rows]\<rparr>)"
      using cleanup_one_inserts [OF Cons.prems(2,3,4,5,6)] .
    from cleanup_loop_client [OF c1, of db sids] show ?thesis using True by auto
  next
    case False
    with Cons.prems have in_rest: "sid \<in> set sids" by simp
    obtain cl1 where c1: "client (cleanup_one (db a) p a) = Some cl1"
      using cleanup_one_client [OF Cons.prems(2), of "db a" a] by blast
    have wb: "map_of (write_buffer (cleanup_one (db a) p a)) sid = Some rows"
      using False cleanup_one_other [of sid a "db a" p] Cons.prems(3) by simp
    have ld: "collection_loaded (cleanup_one (db a) p a) \<or> load_collection_ok (db sid)"
      using Cons.prems(6) cleanup_one_loaded [of p "db a" a] by blast
    from Cons.IH [OF in_rest c1 wb Cons.prems(4,5) ld] show ?thesis by simp
  qed
qed

lemma stale_sessions_member:
  assumes "map_of (buffer_timestamps p) sid = Some t" and "current_time - t > BUFFER_TTL p"
  shows "sid \<in> set (stale_sessions current_time p) \<and> buffer_timestamps p \<noteq> []"
proof -
  have "(sid, t) \<in> set (buffer_timestamps p)" using assms(1) by (rule map_of_SomeD)
  then show ?thesis using assms(2) by (force simp: stale_sessions_def)
qed

text \<open>
  C9 (as amended).  For every session key whose timestamp is older than the TTL when
  the sweep runs, the sweep flushes that session once: afterwards the session has no
  buffered record, and if it had a non-empty list, its list and its timestamp are gone.
  If the flush can write, the list has been handed to the storage client.  If that one
  flush fails, the list and the timestamp are removed at once, without a retry and
  without the records having been written.
\<close>

theorem cleanup_stale_buffers_discards:
  assumes "map_of (buffer_timestamps p) sid = Some t" and "current_time - t > BUFFER_TTL p"
  shows "current_buffer_size (cleanup_stale_buffers db current_time p) sid = 0
     \<and> (map_of (write_buffer p) sid = Some rows \<and> rows \<noteq> [] \<longrightarrow>
          map_of (write_buffer (cleanup_stale_buffers db current_time p)) sid = None
          \<and> map_of (buffer_timestamps (cleanup_stale_buffers db current_time p)) sid = None)
     \<and> (map_of (write_buffer p) sid = Some rows \<and> rows \<noteq> [] \<and> client p = Some cl
          \<and> insert_ok (db sid) \<and> (collection_loaded p \<or> load_collection_ok (db sid)) \<longrightarrow>
          (\<exists>cl'. client (cleanup_stale_buffers db current_time p) = Some cl'
             \<and> rows \<in> set (inserted cl')))
     \<and> (map_of (write_buffer p) sid = Some rows \<and> rows \<noteq> [] \<and> client p = Some cl
          \<and> (\<not> insert_ok out \<or> (\<not> collection_loaded p \<and> \<not> load_collection_ok out)) \<longrightarrow>
          client (cleanup_one out p sid) = client p
          \<and> map_of (write_buffer (cleanup_one out p sid)) sid = None
          \<and> map_of (buffer_timestamps (cleanup_one out p sid)) sid = None)"
proof -
  from stale_sessions_member [OF assms] have
    mem: "sid \<in> set (stale_sessions current_time p)" and ne: "buffer_timestamps p \<noteq> []"
    by simp_all
  have eq: "cleanup_stale_buffers db current_time p = cleanup_loop db p (stale_sessions current_time p)"
    using ne by (simp add: cleanup_stale_buffers_def)
  show ?thesis
    unfolding eq
    using cleanup_loop_stale_empty [OF mem, of db p]
      cleanup_loop_stale_removed [OF mem, of p rows db]
      cleanup_loop_stale_flushed [OF mem, of p cl rows db]
      cleanup_one_discards [of p cl sid rows out]
    by blast
qed

theorem cleanup_stale_buffers_discards_witness:
  "cleanup_stale_buffers (\<lambda>sid. storage_up) 1000 four_buffered
     = four_buffered\<lparr>client := Some \<lparr>inserted =
           [ [example_row ''a'', example_row ''b'', example_row ''c'', example_row ''d''] ]\<rparr>,
         write_buffer := [], buffer_timestamps := []\<rparr>"
  using cleanup_stale_buffers_discards [of four_buffered "''s1''" 0 1000 "\<lambda>sid. storage_up"
      "[example_row ''a'', example_row ''b'', example_row ''c'', example_row ''d'']"
      "\<lparr>inserted = []\<rparr>" storage_down]
  by (simp add: persistence_defs)

text \<open>
  C9 as written fails on a single failure: one failed flush during the sweep
  already removes the session's list and timestamp, and nothing has been inserted.
\<close>

theorem cleanup_single_failure_counterexample:
  "fst (flush_session storage_down four_buffered ''s1'') = False
   \<and> cleanup_stale_buffers (\<lambda>sid. storage_down) 1000 four_buffered
     = four_buffered\<lparr>write_buffer := [], buffer_timestamps := []\<rparr>"
  by (simp add: persistence_defs)

end
